theory Spec2Isabelle
  imports Main
begin

section \<open>The probation ledger of qobot\<close>

text \<open>
  The ledger is the SQLite table \<^verbatim>\<open>users_in_role (user TEXT, date TEXT)\<close> that
  \<^verbatim>\<open>init_db\<close> creates, with one unique index on \<^verbatim>\<open>user\<close> and one unique index on
  \<^verbatim>\<open>date\<close>. A table is the list of its rows in insertion order.

  \<^item> The \<^verbatim>\<open>user\<close> column holds the decimal text of a Discord id that was bound as a
    Python integer and is read back with \<^verbatim>\<open>int(row['user'])\<close>; decimal text is
    injective on integers, so the column is modelled by the integer itself.
  \<^item> The \<^verbatim>\<open>date\<close> column holds what SQLite's \<^verbatim>\<open>datetime()\<close> returns, the UTC time
    as \<^verbatim>\<open>YYYY-MM-DD HH:MM:SS\<close>. Texts of this fixed width compare as the instants
    they denote, so a timestamp is modelled by its number of whole seconds.
\<close>

type_synonym snowflake = int
type_synonym time = int

record row =
  user :: snowflake
  date :: time

text \<open>
  The exceptions the program raises or catches: \<^verbatim>\<open>discord.NotFound\<close> and
  \<^verbatim>\<open>discord.HTTPException\<close> from the platform, \<^verbatim>\<open>sqlite3.IntegrityError\<close> from
  an insertion that violates a unique index.
\<close>

datatype exn = NotFound | HTTPException | IntegrityError

text \<open>
  The role changes a run asks the platform for (\<^verbatim>\<open>member.add_roles\<close>,
  \<^verbatim>\<open>member.remove_roles\<close>), in the order they are issued.
\<close>

datatype role_mutation = AddRoles snowflake snowflake | RemoveRoles snowflake snowflake

text \<open>
  The state a run works on: the table, the system clock as the sequence of readings the
  coming evaluations of \<^verbatim>\<open>datetime\<close> will see (the head is the next one), and the
  role changes issued so far. The program as it stands issues none: its only two calls
  that would are commented out in \<^verbatim>\<open>promote_users\<close>.
\<close>

record world =
  users_in_role :: "row list"
  clock :: "nat \<Rightarrow> time"
  role_mutations :: "role_mutation list"

definition datetime :: "world \<Rightarrow> time \<times> world" where
  "datetime w = (clock w 0, w\<lparr>clock := (\<lambda>n. clock w (Suc n))\<rparr>)"

text \<open>What the two unique indexes of \<^verbatim>\<open>init_db\<close> guarantee of a table.\<close>

definition unique_indexes :: "row list \<Rightarrow> bool" where
  "unique_indexes rows = (distinct (map user rows) \<and> distinct (map date rows))"

text \<open>
  \<^verbatim>\<open>init_db\<close> on a new database file: the table is created empty, with its two unique
  indexes. (On an existing file each of its statements is an \<^verbatim>\<open>IF NOT EXISTS\<close> and
  changes nothing.) The clock is the one the run will read.
\<close>

definition init_db :: "(nat \<Rightarrow> time) \<Rightarrow> world" where
  "init_db clk = \<lparr>users_in_role = [], clock = clk, role_mutations = []\<rparr>"

subsection \<open>Ledger operations\<close>

text \<open>\<^verbatim>\<open>DELETE FROM users_in_role WHERE user = ?\<close>, then commit.\<close>

definition remove_from_db :: "world \<Rightarrow> snowflake \<Rightarrow> world" where
  "remove_from_db w u = w\<lparr>users_in_role := filter (\<lambda>r. user r \<noteq> u) (users_in_role w)\<rparr>"

text \<open>
  \<^verbatim>\<open>INSERT INTO users_in_role (user, date) VALUES (?, datetime())\<close>, then commit. The
  insertion raises when the new row would repeat a value of either uniquely indexed
  column; nothing is inserted then.
\<close>

definition add_user_to_db :: "world \<Rightarrow> snowflake \<Rightarrow> exn option \<times> world" where
  "add_user_to_db w u =
     (let (now, w') = datetime w in
      if u \<in> set (map user (users_in_role w')) \<or> now \<in> set (map date (users_in_role w'))
      then (Some IntegrityError, w')
      else (None, w'\<lparr>users_in_role := users_in_role w' @ [\<lparr>user = u, date = now\<rparr>]\<rparr>))"

subsection \<open>Iterating over a Python set\<close>

text \<open>
  Python does not specify the order in which a \<^verbatim>\<open>for\<close> loop visits a set. The loops
  over sets take the order as a parameter, a function from a finite set to a list of its
  elements; the properties below hold for every such function.
\<close>

definition set_iteration :: "(int set \<Rightarrow> int list) \<Rightarrow> bool" where
  "set_iteration iter = (\<forall>S. finite S \<longrightarrow> set (iter S) = S \<and> distinct (iter S))"

definition ascending :: "int set \<Rightarrow> int list" where
  "ascending S = sorted_list_of_set S"

subsection \<open>Reconciliation\<close>

fun remove_stale :: "world \<Rightarrow> snowflake list \<Rightarrow> world" where
  "remove_stale w [] = w"
| "remove_stale w (u # us) = remove_stale (remove_from_db w u) us"

fun add_missing :: "world \<Rightarrow> snowflake list \<Rightarrow> exn option \<times> world" where
  "add_missing w [] = (None, w)"
| "add_missing w (u # us) =
     (case add_user_to_db w u of
        (Some e, w') \<Rightarrow> (Some e, w')
      | (None, w') \<Rightarrow> add_missing w' us)"

definition update_probation_users ::
  "(int set \<Rightarrow> int list) \<Rightarrow> world \<Rightarrow> snowflake set \<Rightarrow> exn option \<times> world" where
  "update_probation_users iter w users_in_probation =
     (let users_in_db = set (map user (users_in_role w));
          missing_users = users_in_probation - users_in_db;
          stale_users = users_in_db - users_in_probation
      in add_missing (remove_stale w (iter stale_users)) (iter missing_users))"

subsection \<open>Eligibility\<close>

text \<open>
  \<^verbatim>\<open>SELECT user FROM users_in_role WHERE date < datetime('now', '-7 day')\<close>: seven days
  are 604800 seconds.
\<close>

definition get_ready_users :: "world \<Rightarrow> snowflake set \<times> world" where
  "get_ready_users w =
     (let (now, w') = datetime w in
      (set (map user (filter (\<lambda>r. date r < now - 604800) (users_in_role w'))), w'))"

subsection \<open>The platform\<close>

text \<open>
  A \<^verbatim>\<open>discord.Role\<close> compares and hashes by its id alone, so the roles of a member
  are the list of their ids. A guild answers \<^verbatim>\<open>fetch_role\<close> with a role or raises.
  The two role ids of the configuration come from the environment.
\<close>

record member =
  member_id :: snowflake
  roles :: "snowflake list"

record role =
  role_id :: snowflake
  members :: "member list"

record guild =
  fetch_role :: "snowflake \<Rightarrow> exn + role"

record config =
  role_id_monitored :: snowflake
  role_id_validated :: snowflake

text \<open>\<^verbatim>\<open>except (discord.NotFound, discord.HTTPException): pass\<close>\<close>

fun caught :: "exn \<Rightarrow> bool" where
  "caught NotFound = True"
| "caught HTTPException = True"
| "caught IntegrityError = False"

subsection \<open>The reconciler\<close>

text \<open>The body of the \<^verbatim>\<open>try\<close> of \<^verbatim>\<open>scan_users\<close>, for one guild.\<close>

definition scan_guild ::
  "config \<Rightarrow> (int set \<Rightarrow> int list) \<Rightarrow> world \<Rightarrow> guild \<Rightarrow> exn option \<times> world" where
  "scan_guild cfg iter w g =
     (case fetch_role g (role_id_monitored cfg) of
        Inl e \<Rightarrow> (Some e, w)
      | Inr role \<Rightarrow>
          (let users_in_probation = set (map member_id (members role))
           in update_probation_users iter w users_in_probation))"

fun scan_users ::
  "config \<Rightarrow> (int set \<Rightarrow> int list) \<Rightarrow> guild list \<Rightarrow> world \<Rightarrow> exn option \<times> world" where
  "scan_users cfg iter [] w = (None, w)"
| "scan_users cfg iter (g # guilds) w =
     (case scan_guild cfg iter w g of
        (None, w') \<Rightarrow> scan_users cfg iter guilds w'
      | (Some e, w') \<Rightarrow> if caught e then scan_users cfg iter guilds w' else (Some e, w'))"

subsection \<open>The promotion scheduler\<close>

text \<open>
  The body of the innermost \<^verbatim>\<open>if member.id == user_id\<close>. Both role changes,
  \<^verbatim>\<open>member.add_roles(target_role)\<close> and \<^verbatim>\<open>member.remove_roles(role)\<close>, are commented
  out in the source under \<^verbatim>\<open># XXX Dry run\<close>: only the ledger deletion runs.
\<close>

definition promote_member :: "world \<Rightarrow> member \<Rightarrow> role \<Rightarrow> role \<Rightarrow> snowflake \<Rightarrow> world" where
  "promote_member w m role target_role user_id = remove_from_db w user_id"

fun promote_ready :: "world \<Rightarrow> member \<Rightarrow> role \<Rightarrow> role \<Rightarrow> snowflake list \<Rightarrow> world" where
  "promote_ready w m role target_role [] = w"
| "promote_ready w m role target_role (user_id # rest) =
     (if member_id m = user_id
      then promote_ready (promote_member w m role target_role user_id) m role target_role rest
      else promote_ready w m role target_role rest)"

fun promote_members :: "world \<Rightarrow> member list \<Rightarrow> role \<Rightarrow> role \<Rightarrow> snowflake list \<Rightarrow> world" where
  "promote_members w [] role target_role ready = w"
| "promote_members w (m # ms) role target_role ready =
     promote_members (promote_ready w m role target_role ready) ms role target_role ready"

text \<open>The body of the \<^verbatim>\<open>try\<close> of \<^verbatim>\<open>promote_users\<close>, for one guild.\<close>

definition promote_guild ::
  "config \<Rightarrow> (int set \<Rightarrow> int list) \<Rightarrow> snowflake set \<Rightarrow> world \<Rightarrow> guild \<Rightarrow> exn option \<times> world" where
  "promote_guild cfg iter ready_users w g =
     (case fetch_role g (role_id_monitored cfg) of
        Inl e \<Rightarrow> (Some e, w)
      | Inr role \<Rightarrow>
          (case fetch_role g (role_id_validated cfg) of
             Inl e \<Rightarrow> (Some e, w)
           | Inr target_role \<Rightarrow>
               (None, promote_members w (members role) role target_role (iter ready_users))))"

fun promote_guilds ::
  "config \<Rightarrow> (int set \<Rightarrow> int list) \<Rightarrow> snowflake set \<Rightarrow> guild list \<Rightarrow> world \<Rightarrow> exn option \<times> world" where
  "promote_guilds cfg iter ready_users [] w = (None, w)"
| "promote_guilds cfg iter ready_users (g # guilds) w =
     (case promote_guild cfg iter ready_users w g of
        (None, w') \<Rightarrow> promote_guilds cfg iter ready_users guilds w'
      | (Some e, w') \<Rightarrow>
          if caught e then promote_guilds cfg iter ready_users guilds w' else (Some e, w'))"

definition promote_users ::
  "config \<Rightarrow> (int set \<Rightarrow> int list) \<Rightarrow> guild list \<Rightarrow> world \<Rightarrow> exn option \<times> world" where
  "promote_users cfg iter guilds w =
     (let (ready_users, w') = get_ready_users w in
      if card ready_users < 1 then (None, w')
      else promote_guilds cfg iter ready_users guilds w')"

subsection \<open>The event listener\<close>

fun added_loop :: "config \<Rightarrow> world \<Rightarrow> member \<Rightarrow> snowflake list \<Rightarrow> exn option \<times> world" where
  "added_loop cfg w after [] = (None, w)"
| "added_loop cfg w after (r # rs) =
     (if r = role_id_monitored cfg
      then (case add_user_to_db w (member_id after) of
              (Some e, w') \<Rightarrow> (Some e, w')
            | (None, w') \<Rightarrow> added_loop cfg w' after rs)
      else added_loop cfg w after rs)"

fun removed_loop :: "config \<Rightarrow> world \<Rightarrow> member \<Rightarrow> snowflake list \<Rightarrow> world" where
  "removed_loop cfg w after [] = w"
| "removed_loop cfg w after (r # rs) =
     (if r = role_id_monitored cfg
      then removed_loop cfg (remove_from_db w (member_id after)) after rs
      else removed_loop cfg w after rs)"

definition on_member_update ::
  "config \<Rightarrow> (int set \<Rightarrow> int list) \<Rightarrow> world \<Rightarrow> member \<Rightarrow> member \<Rightarrow> exn option \<times> world" where
  "on_member_update cfg iter w before after =
     (if roles before = roles after then (None, w)
      else
        (let before_roles = set (roles before);
             after_roles = set (roles after);
             added_roles = after_roles - before_roles;
             removed_roles = before_roles - after_roles
         in case added_loop cfg w after (iter added_roles) of
              (Some e, w') \<Rightarrow> (Some e, w')
            | (None, w') \<Rightarrow> (None, removed_loop cfg w' after (iter removed_roles))))"

subsection \<open>Auxiliary notions for the statements\<close>

text \<open>
  The rows a run of insertions appends: the users in the order they are inserted, the
  \<open>k\<close>-th stamped with the \<open>k\<close>-th reading of the clock.
\<close>

definition new_rows :: "snowflake list \<Rightarrow> (nat \<Rightarrow> time) \<Rightarrow> row list" where
  "new_rows us clk = map (\<lambda>(u, k). \<lparr>user = u, date = clk k\<rparr>) (zip us [0..<length us])"

text \<open>The role of the last guild of the list whose monitored role could be fetched.\<close>

fun last_fetched :: "config \<Rightarrow> guild list \<Rightarrow> role option" where
  "last_fetched cfg [] = None"
| "last_fetched cfg (g # guilds) =
     (case last_fetched cfg guilds of
        Some role \<Rightarrow> Some role
      | None \<Rightarrow> (case fetch_role g (role_id_monitored cfg) of
                   Inl e \<Rightarrow> None
                 | Inr role \<Rightarrow> Some role))"

text \<open>The members a guild's pass of the scheduler can act on.\<close>

definition promotable :: "config \<Rightarrow> guild \<Rightarrow> snowflake set" where
  "promotable cfg g =
     (case fetch_role g (role_id_monitored cfg) of
        Inl e \<Rightarrow> {}
      | Inr role \<Rightarrow>
          (case fetch_role g (role_id_validated cfg) of
             Inl e \<Rightarrow> {}
           | Inr target_role \<Rightarrow> set (map member_id (members role))))"

text \<open>The members of a guild's monitored role, none when the fetch fails.\<close>

definition monitored_members :: "config \<Rightarrow> guild \<Rightarrow> snowflake set" where
  "monitored_members cfg g =
     (case fetch_role g (role_id_monitored cfg) of
        Inl e \<Rightarrow> {}
      | Inr role \<Rightarrow> set (map member_id (members role)))"

text \<open>Every failure of a fetch is one the \<^verbatim>\<open>except\<close> clause names.\<close>

definition documented_failures :: "guild list \<Rightarrow> bool" where
  "documented_failures guilds = (\<forall>g \<in> set guilds. \<forall>rid e. fetch_role g rid = Inl e \<longrightarrow> caught e)"

text \<open>
  Example clocks: one that advances a second between two readings, and one whose
  readings all fall within the same second. An example guild: \<^verbatim>\<open>fetch_role\<close> finds
  the role among those the guild has, and raises \<^verbatim>\<open>NotFound\<close> otherwise.
\<close>

definition steady_clock :: "time \<Rightarrow> nat \<Rightarrow> time" where
  "steady_clock t0 n = t0 + int n"

definition same_second :: "time \<Rightarrow> nat \<Rightarrow> time" where
  "same_second t0 n = t0"

fun find_role :: "role list \<Rightarrow> snowflake \<Rightarrow> exn + role" where
  "find_role [] rid = Inl NotFound"
| "find_role (r # rs) rid = (if role_id r = rid then Inr r else find_role rs rid)"

definition guild_of :: "role list \<Rightarrow> guild" where
  "guild_of rs = \<lparr>fetch_role = find_role rs\<rparr>"

section \<open>Properties of the ledger operations\<close>

lemma users_remove_from_db:
  "users_in_role (remove_from_db w u) = filter (\<lambda>r. user r \<noteq> u) (users_in_role w)"
  by (simp add: remove_from_db_def)

lemma remove_from_db_absent:
  "u \<notin> user ` set (users_in_role w) \<Longrightarrow> remove_from_db w u = w"
proof -
  assume "u \<notin> user ` set (users_in_role w)"
  then have "filter (\<lambda>r. user r \<noteq> u) (users_in_role w) = users_in_role w"
    by (auto simp: filter_id_conv)
  then show ?thesis by (simp add: remove_from_db_def)
qed

lemma remove_from_db_fields:
  "clock (remove_from_db w u) = clock w" "role_mutations (remove_from_db w u) = role_mutations w"
  by (simp_all add: remove_from_db_def)

lemma remove_from_db_idem: "remove_from_db (remove_from_db w u) u = remove_from_db w u"
  by (simp add: remove_from_db_def)

lemma unique_indexes_filter: "unique_indexes rows \<Longrightarrow> unique_indexes (filter P rows)"
  by (simp add: unique_indexes_def distinct_map_filter)

lemma unique_indexes_remove:
  "unique_indexes (users_in_role w) \<Longrightarrow> unique_indexes (users_in_role (remove_from_db w u))"
  by (simp add: users_remove_from_db unique_indexes_filter)

lemma add_user_to_db_cases:
  "add_user_to_db w u =
     (if u \<in> user ` set (users_in_role w) \<or> clock w 0 \<in> date ` set (users_in_role w)
      then (Some IntegrityError, w\<lparr>clock := (\<lambda>n. clock w (Suc n))\<rparr>)
      else (None, w\<lparr>users_in_role := users_in_role w @ [\<lparr>user = u, date = clock w 0\<rparr>],
                     clock := (\<lambda>n. clock w (Suc n))\<rparr>))"
  by (simp add: add_user_to_db_def datetime_def)

lemma add_user_to_db_error:
  "add_user_to_db w u = (Some e, w') \<Longrightarrow> e = IntegrityError \<and> users_in_role w' = users_in_role w"
  by (auto simp: add_user_to_db_cases split: if_splits)

lemma add_user_to_db_None:
  "add_user_to_db w u = (None, w') \<Longrightarrow>
     users_in_role w' = users_in_role w @ [\<lparr>user = u, date = clock w 0\<rparr>] \<and>
     u \<notin> user ` set (users_in_role w) \<and> clock w 0 \<notin> date ` set (users_in_role w)"
  by (auto simp: add_user_to_db_cases split: if_splits)

lemma add_user_to_db_mutations:
  "role_mutations (snd (add_user_to_db w u)) = role_mutations w"
  by (simp add: add_user_to_db_cases)

lemma unique_indexes_add:
  "unique_indexes (users_in_role w) \<Longrightarrow> unique_indexes (users_in_role (snd (add_user_to_db w u)))"
  by (auto simp: add_user_to_db_cases unique_indexes_def)

lemma remove_stale_eq:
  "remove_stale w us = w\<lparr>users_in_role := filter (\<lambda>r. user r \<notin> set us) (users_in_role w)\<rparr>"
proof (induction us arbitrary: w)
  case Nil
  show ?case by simp
next
  case (Cons u us)
  have "filter (\<lambda>r. user r \<notin> set us) (filter (\<lambda>r. user r \<noteq> u) (users_in_role w)) =
        filter (\<lambda>r. user r \<notin> set (u # us)) (users_in_role w)"
    by (auto intro: filter_cong)
  with Cons show ?case by (simp add: remove_from_db_def)
qed

lemma add_missing_error:
  "add_missing w us = (Some e, w') \<Longrightarrow> e = IntegrityError"
proof (induction us arbitrary: w)
  case Nil
  then show ?case by simp
next
  case (Cons u us)
  then show ?case
    by (auto split: prod.splits option.splits dest: add_user_to_db_error)
qed

lemma add_missing_None:
  "add_missing w us = (None, w') \<Longrightarrow>
     user ` set (users_in_role w') = user ` set (users_in_role w) \<union> set us"
proof (induction us arbitrary: w)
  case Nil
  then show ?case by simp
next
  case (Cons u us)
  from Cons.prems obtain w1 where a: "add_user_to_db w u = (None, w1)"
    and m: "add_missing w1 us = (None, w')"
    by (auto split: prod.splits option.splits)
  from add_user_to_db_None [OF a] have "user ` set (users_in_role w1) = insert u (user ` set (users_in_role w))"
    by simp
  with Cons.IH [OF m] show ?case by auto
qed

lemma add_missing_fresh:
  assumes "distinct us"
    and "set us \<inter> user ` set (users_in_role w) = {}"
    and "distinct (map (clock w) [0..<length us])"
    and "clock w ` {0..<length us} \<inter> date ` set (users_in_role w) = {}"
  shows "add_missing w us =
           (None, w\<lparr>users_in_role := users_in_role w @ new_rows us (clock w),
                    clock := (\<lambda>n. clock w (n + length us))\<rparr>)"
  using assms
proof (induction us arbitrary: w)
  case Nil
  then show ?case by (simp add: new_rows_def)
next
  case (Cons u us)
  let ?w1 = "w\<lparr>users_in_role := users_in_role w @ [\<lparr>user = u, date = clock w 0\<rparr>],
                     clock := (\<lambda>n. clock w (Suc n))\<rparr>"
  have fresh: "u \<notin> user ` set (users_in_role w)" "clock w 0 \<notin> date ` set (users_in_role w)"
  proof -
    show "u \<notin> user ` set (users_in_role w)" using Cons.prems(2) by auto
    have "clock w 0 \<in> clock w ` {0..<length (u # us)}" by simp
    with Cons.prems(4) show "clock w 0 \<notin> date ` set (users_in_role w)" by blast
  qed
  then have a: "add_user_to_db w u = (None, ?w1)"
    by (simp add: add_user_to_db_cases)
  have d: "distinct (clock w 0 # map (\<lambda>i. clock w (Suc i)) [0..<length us])"
    using Cons.prems(3) by (simp add: map_upt_Suc del: upt_Suc)
  have 1: "distinct us" using Cons.prems(1) by simp
  have 2: "set us \<inter> user ` set (users_in_role ?w1) = {}"
    using Cons.prems(1,2) by auto
  have 3: "distinct (map (clock ?w1) [0..<length us])"
    using d by simp
  have A: "\<forall>k<length us. clock w (Suc k) \<notin> date ` set (users_in_role w) \<and> clock w (Suc k) \<noteq> clock w 0"
  proof (intro allI impI conjI)
    fix k assume k: "k < length us"
    then have "clock w (Suc k) \<in> clock w ` {0..<length (u # us)}" by simp
    with Cons.prems(4) show "clock w (Suc k) \<notin> date ` set (users_in_role w)" by blast
    from k have "clock w (Suc k) \<in> (\<lambda>i. clock w (Suc i)) ` {0..<length us}" by simp
    with d show "clock w (Suc k) \<noteq> clock w 0" by auto
  qed
  have 4: "clock ?w1 ` {0..<length us} \<inter> date ` set (users_in_role ?w1) = {}"
  proof -
    have "t \<notin> date ` set (users_in_role ?w1)" if "t \<in> clock ?w1 ` {0..<length us}" for t
    proof -
      from that obtain k where "k < length us" "t = clock w (Suc k)" by auto
      with A show ?thesis by simp
    qed
    then show ?thesis by blast
  qed
  have z: "zip (u # us) [0..<length (u # us)] = (u, 0) # map (\<lambda>(x, k). (x, Suc k)) (zip us [0..<length us])"
    by (simp add: upt_conv_Cons zip_map2 map_Suc_upt [symmetric] del: upt_Suc)
  have n: "new_rows (u # us) (clock w) = \<lparr>user = u, date = clock w 0\<rparr> # new_rows us (clock ?w1)"
    unfolding new_rows_def z by (simp add: case_prod_beta)
  show ?case
    using Cons.IH [OF 1 2 3 4] a n by simp
qed


lemma set_iteration_ascending: "set_iteration ascending"
  by (simp add: set_iteration_def ascending_def)

lemma set_iterationD:
  "set_iteration iter \<Longrightarrow> finite S \<Longrightarrow> set (iter S) = S"
  "set_iteration iter \<Longrightarrow> finite S \<Longrightarrow> distinct (iter S)"
  "set_iteration iter \<Longrightarrow> finite S \<Longrightarrow> length (iter S) = card S"
  by (auto simp: set_iteration_def distinct_card [symmetric])

lemma add_missing_appends:
  "\<exists>added. users_in_role (snd (add_missing w us)) = users_in_role w @ added"
proof (induction us arbitrary: w)
  case Nil
  show ?case by simp
next
  case (Cons u us)
  show ?case
  proof (cases "add_user_to_db w u")
    case (Pair r w1)
    show ?thesis
    proof (cases r)
      case None
      with Pair have "users_in_role w1 = users_in_role w @ [\<lparr>user = u, date = clock w 0\<rparr>]"
        by (simp add: add_user_to_db_None)
      moreover from Cons.IH [of w1] obtain added where
        "users_in_role (snd (add_missing w1 us)) = users_in_role w1 @ added" by blast
      ultimately show ?thesis using Pair None by simp
    next
      case (Some e)
      with Pair show ?thesis by (simp add: add_user_to_db_error)
    qed
  qed
qed

lemma filter_stale:
  "filter (\<lambda>r. user r \<notin> user ` set rows - L) rows = filter (\<lambda>r. user r \<in> L) rows"
  by (rule filter_cong) auto

lemma update_probation_users_unfold:
  assumes "set_iteration iter"
  shows "update_probation_users iter w L =
           add_missing (w\<lparr>users_in_role := filter (\<lambda>r. user r \<in> L) (users_in_role w)\<rparr>)
             (iter (L - user ` set (users_in_role w)))"
proof -
  have "finite (user ` set (users_in_role w) - L)" by simp
  then have "set (iter (user ` set (users_in_role w) - L)) = user ` set (users_in_role w) - L"
    using assms by (rule set_iterationD(1) [rotated])
  then have "remove_stale w (iter (user ` set (users_in_role w) - L)) =
      w\<lparr>users_in_role := filter (\<lambda>r. user r \<in> L) (users_in_role w)\<rparr>"
    by (simp only: remove_stale_eq filter_stale)
  then show ?thesis
    by (simp add: update_probation_users_def)
qed

lemma update_probation_users_keeps:
  assumes "set_iteration iter"
  shows "\<exists>added. users_in_role (snd (update_probation_users iter w L)) =
           filter (\<lambda>r. user r \<in> L) (users_in_role w) @ added"
  using add_missing_appends [of "w\<lparr>users_in_role := filter (\<lambda>r. user r \<in> L) (users_in_role w)\<rparr>"]
  by (simp add: update_probation_users_unfold [OF assms])

lemma update_probation_users_error:
  "update_probation_users iter w L = (Some e, w') \<Longrightarrow> e = IntegrityError"
  by (auto simp: update_probation_users_def dest: add_missing_error)

lemma update_probation_users_None:
  assumes "set_iteration iter" and "finite L"
    and "update_probation_users iter w L = (None, w')"
  shows "user ` set (users_in_role w') = L"
proof -
  let ?T = "user ` set (users_in_role w)"
  have fin: "finite (L - ?T)" using assms(2) by simp
  from assms(3) have "user ` set (users_in_role w') =
      user ` set (filter (\<lambda>r. user r \<in> L) (users_in_role w)) \<union> set (iter (L - ?T))"
    by (simp add: update_probation_users_unfold [OF assms(1)] add_missing_None)
  also have "set (iter (L - ?T)) = L - ?T"
    using assms(1) fin by (rule set_iterationD(1))
  finally show ?thesis by auto
qed

lemma update_probation_users_fresh:
  assumes "set_iteration iter" and "finite L"
    and "distinct (map (clock w) [0..<card (L - user ` set (users_in_role w))])"
    and "clock w ` {0..<card (L - user ` set (users_in_role w))} \<inter>
           date ` set (filter (\<lambda>r. user r \<in> L) (users_in_role w)) = {}"
  shows "update_probation_users iter w L =
           (None, w\<lparr>users_in_role := filter (\<lambda>r. user r \<in> L) (users_in_role w) @
                      new_rows (iter (L - user ` set (users_in_role w))) (clock w),
                    clock := (\<lambda>n. clock w (n + card (L - user ` set (users_in_role w))))\<rparr>)"
proof -
  let ?T = "user ` set (users_in_role w)"
  let ?w1 = "w\<lparr>users_in_role := filter (\<lambda>r. user r \<in> L) (users_in_role w)\<rparr>"
  have fin: "finite (L - ?T)" using assms(2) by simp
  have s: "set (iter (L - ?T)) = L - ?T" and d: "distinct (iter (L - ?T))"
    and l: "length (iter (L - ?T)) = card (L - ?T)"
    using assms(1) fin by (rule set_iterationD)+
  have 2: "set (iter (L - ?T)) \<inter> user ` set (users_in_role ?w1) = {}"
    unfolding s by auto
  have 3: "distinct (map (clock ?w1) [0..<length (iter (L - ?T))])"
    using assms(3) by (simp add: l)
  have 4: "clock ?w1 ` {0..<length (iter (L - ?T))} \<inter> date ` set (users_in_role ?w1) = {}"
    using assms(4) by (simp add: l)
  show ?thesis
    using add_missing_fresh [OF d 2 3 4]
    by (simp add: update_probation_users_unfold [OF assms(1)] l)
qed

subsection \<open>The reconciler\<close>

lemma scan_guild_failed:
  "fetch_role g (role_id_monitored cfg) = Inl e \<Longrightarrow> scan_guild cfg iter w g = (Some e, w)"
  by (simp add: scan_guild_def)

lemma scan_users_skip:
  assumes "fetch_role g (role_id_monitored cfg) = Inl e" and "caught e"
  shows "scan_users cfg iter (gs1 @ g # gs2) w = scan_users cfg iter (gs1 @ gs2) w"
proof (induction gs1 arbitrary: w)
  case Nil
  show ?case using assms by (simp add: scan_guild_failed)
next
  case (Cons a gs1)
  show ?case by (simp add: Cons.IH split: prod.splits option.splits)
qed

lemma scan_users_None:
  assumes "set_iteration iter"
  shows "scan_users cfg iter guilds w = (None, w') \<Longrightarrow>
     user ` set (users_in_role w') =
       (case last_fetched cfg guilds of
          None \<Rightarrow> user ` set (users_in_role w)
        | Some role \<Rightarrow> member_id ` set (members role))"
proof (induction guilds arbitrary: w)
  case Nil
  then show ?case by simp
next
  case (Cons g guilds)
  show ?case
  proof (cases "fetch_role g (role_id_monitored cfg)")
    case (Inl e)
    then have sg: "scan_guild cfg iter w g = (Some e, w)" by (rule scan_guild_failed)
    with Cons.prems have "scan_users cfg iter guilds w = (None, w')"
      by (simp split: if_splits)
    from Cons.IH [OF this] show ?thesis using Inl by (simp split: option.splits)
  next
    case (Inr role)
    let ?L = "set (map member_id (members role))"
    have sg: "scan_guild cfg iter w g = update_probation_users iter w ?L"
      using Inr by (simp add: scan_guild_def)
    obtain r w1 where u: "update_probation_users iter w ?L = (r, w1)" by (cases "update_probation_users iter w ?L")
    show ?thesis
    proof (cases r)
      case None
      with u have "user ` set (users_in_role w1) = ?L"
        using update_probation_users_None [OF assms, of ?L w w1] by simp
      moreover from Cons.prems sg u None have "scan_users cfg iter guilds w1 = (None, w')" by simp
      note Cons.IH [OF this]
      ultimately show ?thesis using Inr by (simp split: option.splits)
    next
      case (Some e)
      with u have "e = IntegrityError" by (simp add: update_probation_users_error)
      with Cons.prems sg u Some show ?thesis by simp
    qed
  qed
qed

lemma scan_users_next:
  assumes "fetch_role g' (role_id_monitored cfg) = Inr role'"
  shows "scan_users cfg iter (g' # gs) w =
           (case update_probation_users iter w (set (map member_id (members role'))) of
              (None, w') \<Rightarrow> scan_users cfg iter gs w'
            | (Some x, w') \<Rightarrow> (Some x, w'))"
proof -
  let ?L = "set (map member_id (members role'))"
  have sg: "scan_guild cfg iter w g' = update_probation_users iter w ?L"
    using assms by (simp add: scan_guild_def)
  obtain r w1 where u: "update_probation_users iter w ?L = (r, w1)"
    by (cases "update_probation_users iter w ?L")
  show ?thesis
  proof (cases r)
    case None
    with sg u show ?thesis by simp
  next
    case (Some x)
    with u have "x = IntegrityError" by (simp add: update_probation_users_error)
    with sg u Some show ?thesis by simp
  qed
qed

lemma scan_guild_keeps:
  assumes "set_iteration iter"
  shows "\<exists>added. users_in_role (snd (scan_guild cfg iter w g)) =
           (case fetch_role g (role_id_monitored cfg) of
              Inl e \<Rightarrow> users_in_role w
            | Inr role \<Rightarrow> filter (\<lambda>r. user r \<in> member_id ` set (members role)) (users_in_role w)) @ added"
proof (cases "fetch_role g (role_id_monitored cfg)")
  case (Inl e)
  then show ?thesis by (simp add: scan_guild_def)
next
  case (Inr role)
  with update_probation_users_keeps [OF assms, of w "member_id ` set (members role)"]
  show ?thesis by (simp add: scan_guild_def)
qed

subsection \<open>The promotion scheduler\<close>

lemma promote_ready_eq:
  "promote_ready w m role target_role ready =
     (if member_id m \<in> set ready then remove_from_db w (member_id m) else w)"
proof (induction ready arbitrary: w)
  case Nil
  show ?case by simp
next
  case (Cons user_id rest)
  show ?case by (simp add: Cons.IH promote_member_def remove_from_db_idem)
qed

lemma remove_from_db_update:
  "(remove_from_db w u)\<lparr>users_in_role := rows\<rparr> = w\<lparr>users_in_role := rows\<rparr>"
  by (simp add: remove_from_db_def)

lemma promote_members_eq:
  "promote_members w ms role target_role ready =
     w\<lparr>users_in_role := filter (\<lambda>r. user r \<notin> member_id ` set ms \<inter> set ready) (users_in_role w)\<rparr>"
proof (induction ms arbitrary: w)
  case Nil
  show ?case by simp
next
  case (Cons m ms)
  show ?case
  proof (cases "member_id m \<in> set ready")
    case True
    have f: "filter (\<lambda>r. user r \<notin> member_id ` set ms \<inter> set ready)
          (filter (\<lambda>r. user r \<noteq> member_id m) (users_in_role w)) =
        filter (\<lambda>r. user r \<notin> member_id ` set (m # ms) \<inter> set ready) (users_in_role w)"
      using True by (auto intro: filter_cong)
    have "promote_members w (m # ms) role target_role ready =
          promote_members (remove_from_db w (member_id m)) ms role target_role ready"
      using True by (simp add: promote_ready_eq)
    also have "\<dots> = w\<lparr>users_in_role :=
        filter (\<lambda>r. user r \<notin> member_id ` set (m # ms) \<inter> set ready) (users_in_role w)\<rparr>"
      by (simp only: Cons.IH remove_from_db_update users_remove_from_db f)
    finally show ?thesis .
  next
    case False
    have f: "filter (\<lambda>r. user r \<notin> member_id ` set ms \<inter> set ready) (users_in_role w) =
        filter (\<lambda>r. user r \<notin> member_id ` set (m # ms) \<inter> set ready) (users_in_role w)"
      using False by (auto intro: filter_cong)
    have "promote_members w (m # ms) role target_role ready =
          promote_members w ms role target_role ready"
      using False by (simp add: promote_ready_eq)
    also have "\<dots> = w\<lparr>users_in_role :=
        filter (\<lambda>r. user r \<notin> member_id ` set (m # ms) \<inter> set ready) (users_in_role w)\<rparr>"
      by (simp only: Cons.IH f)
    finally show ?thesis .
  qed
qed

lemma promotable_subset: "promotable cfg g \<subseteq> monitored_members cfg g"
  by (auto simp: promotable_def monitored_members_def split: sum.splits)

lemma promote_guild_ledger:
  assumes "set (iter ready_users) = ready_users"
  shows "snd (promote_guild cfg iter ready_users w g) =
           w\<lparr>users_in_role := filter (\<lambda>r. user r \<notin> promotable cfg g \<inter> ready_users) (users_in_role w)\<rparr>"
  by (simp add: promote_guild_def promotable_def promote_members_eq assms split: sum.splits)

lemma promote_guild_result:
  "fst (promote_guild cfg iter ready_users w g) = Some e \<Longrightarrow>
     fetch_role g (role_id_monitored cfg) = Inl e \<or> fetch_role g (role_id_validated cfg) = Inl e"
  by (auto simp: promote_guild_def split: sum.splits)

lemma promote_guilds_step:
  "promote_guild cfg iter ready_users w g = (r, w1) \<Longrightarrow>
     promote_guilds cfg iter ready_users (g # guilds) w = promote_guilds cfg iter ready_users guilds w1 \<or>
     promote_guilds cfg iter ready_users (g # guilds) w = (r, w1)"
  by (auto split: option.splits)

lemma promote_guilds_frame:
  assumes "set (iter ready_users) = ready_users"
  shows "\<exists>X. X \<subseteq> ready_users \<inter> (\<Union>g \<in> set guilds. promotable cfg g) \<and>
           snd (promote_guilds cfg iter ready_users guilds w) =
             w\<lparr>users_in_role := filter (\<lambda>r. user r \<notin> X) (users_in_role w)\<rparr>"
proof (induction guilds arbitrary: w)
  case Nil
  have "snd (promote_guilds cfg iter ready_users [] w) =
          w\<lparr>users_in_role := filter (\<lambda>r. user r \<notin> {}) (users_in_role w)\<rparr>" by simp
  then show ?case by blast
next
  case (Cons g guilds)
  let ?P = "promotable cfg g \<inter> ready_users"
  let ?w1 = "w\<lparr>users_in_role := filter (\<lambda>r. user r \<notin> ?P) (users_in_role w)\<rparr>"
  obtain r w1 where pg: "promote_guild cfg iter ready_users w g = (r, w1)"
    by (cases "promote_guild cfg iter ready_users w g")
  then have w1: "w1 = ?w1" using promote_guild_ledger [where iter = iter and ready_users = ready_users and cfg = cfg and w = w and g = g] assms by simp
  from Cons.IH [of ?w1] obtain X where X: "X \<subseteq> ready_users \<inter> (\<Union>g \<in> set guilds. promotable cfg g)"
    and eq: "snd (promote_guilds cfg iter ready_users guilds ?w1) =
             ?w1\<lparr>users_in_role := filter (\<lambda>r. user r \<notin> X) (users_in_role ?w1)\<rparr>"
    by blast
  have f: "filter (\<lambda>r. user r \<notin> X) (filter (\<lambda>r. user r \<notin> ?P) (users_in_role w)) =
        filter (\<lambda>r. user r \<notin> ?P \<union> X) (users_in_role w)"
    by (auto intro: filter_cong)
  have stop: "snd (r, w1) = w\<lparr>users_in_role := filter (\<lambda>r. user r \<notin> ?P) (users_in_role w)\<rparr>"
    using w1 by simp
  have sub1: "?P \<subseteq> ready_users \<inter> (\<Union>g \<in> set (g # guilds). promotable cfg g)" by auto
  have sub2: "?P \<union> X \<subseteq> ready_users \<inter> (\<Union>g \<in> set (g # guilds). promotable cfg g)"
    using X by auto
  consider (go) "promote_guilds cfg iter ready_users (g # guilds) w =
                   promote_guilds cfg iter ready_users guilds ?w1"
    | (halt) "promote_guilds cfg iter ready_users (g # guilds) w = (r, w1)"
    using promote_guilds_step [OF pg, of guilds] unfolding w1 by blast
  then show ?case
  proof cases
    case go
    then have "snd (promote_guilds cfg iter ready_users (g # guilds) w) =
        w\<lparr>users_in_role := filter (\<lambda>r. user r \<notin> ?P \<union> X) (users_in_role w)\<rparr>"
      using eq f by simp
    with sub2 show ?thesis by blast
  next
    case halt
    then have "snd (promote_guilds cfg iter ready_users (g # guilds) w) =
        w\<lparr>users_in_role := filter (\<lambda>r. user r \<notin> ?P) (users_in_role w)\<rparr>"
      using stop by simp
    with sub1 show ?thesis by blast
  qed
qed

lemma promote_guilds_complete:
  assumes "set (iter ready_users) = ready_users" and "documented_failures guilds"
  shows "promote_guilds cfg iter ready_users guilds w =
           (None, w\<lparr>users_in_role :=
              filter (\<lambda>r. user r \<notin> ready_users \<inter> (\<Union>g \<in> set guilds. promotable cfg g)) (users_in_role w)\<rparr>)"
  using assms(2)
proof (induction guilds arbitrary: w)
  case Nil
  show ?case by simp
next
  case (Cons g guilds)
  let ?P = "promotable cfg g \<inter> ready_users"
  let ?w1 = "w\<lparr>users_in_role := filter (\<lambda>r. user r \<notin> ?P) (users_in_role w)\<rparr>"
  obtain r w1 where pg: "promote_guild cfg iter ready_users w g = (r, w1)"
    by (cases "promote_guild cfg iter ready_users w g")
  then have w1: "w1 = ?w1" using promote_guild_ledger [where iter = iter and ready_users = ready_users and cfg = cfg and w = w and g = g] assms(1) by simp
  have c: "caught e" if "r = Some e" for e
    using promote_guild_result [of cfg iter ready_users w g e] pg that Cons.prems
    by (auto simp: documented_failures_def)
  have d: "documented_failures guilds" using Cons.prems by (simp add: documented_failures_def)
  have go: "promote_guilds cfg iter ready_users (g # guilds) w =
                   promote_guilds cfg iter ready_users guilds ?w1"
    using pg w1 c by (auto split: option.splits)
  have f: "filter (\<lambda>r. user r \<notin> ready_users \<inter> (\<Union>g \<in> set guilds. promotable cfg g))
             (filter (\<lambda>r. user r \<notin> ?P) (users_in_role w)) =
        filter (\<lambda>r. user r \<notin> ready_users \<inter> (\<Union>g \<in> set (g # guilds). promotable cfg g)) (users_in_role w)"
    by (auto intro: filter_cong)
  show ?case
    unfolding go Cons.IH [OF d] using f by simp
qed

lemma get_ready_users_eq:
  "get_ready_users w =
     (user ` {r \<in> set (users_in_role w). date r < clock w 0 - 604800},
      w\<lparr>clock := (\<lambda>n. clock w (Suc n))\<rparr>)"
  by (auto simp: get_ready_users_def datetime_def)

lemma finite_ready: "finite (fst (get_ready_users w))"
  by (simp add: get_ready_users_eq)

lemma card_less_one: "finite S \<Longrightarrow> (card S < 1) = (S = {})"
  by auto

lemma promote_users_frame:
  assumes "set_iteration iter"
  shows "\<exists>X. X \<subseteq> fst (get_ready_users w) \<inter> (\<Union>g \<in> set guilds. promotable cfg g) \<and>
           snd (promote_users cfg iter guilds w) =
             w\<lparr>users_in_role := filter (\<lambda>r. user r \<notin> X) (users_in_role w),
               clock := (\<lambda>n. clock w (Suc n))\<rparr>"
proof -
  let ?w1 = "w\<lparr>clock := (\<lambda>n. clock w (Suc n))\<rparr>"
  obtain ready where g: "get_ready_users w = (ready, ?w1)" by (simp add: get_ready_users_eq)
  then have r: "fst (get_ready_users w) = ready" by simp
  show ?thesis
  proof (cases "card ready < 1")
    case True
    with g have "snd (promote_users cfg iter guilds w) =
        w\<lparr>users_in_role := filter (\<lambda>r. user r \<notin> {}) (users_in_role w),
               clock := (\<lambda>n. clock w (Suc n))\<rparr>"
      by (simp add: promote_users_def)
    then show ?thesis by blast
  next
    case False
    have "finite ready" using finite_ready [of w] r by simp
    with assms have "set (iter ready) = ready" by (rule set_iterationD(1))
    from promote_guilds_frame [where iter = iter and ready_users = ready and guilds = guilds and cfg = cfg and w = ?w1, OF this]
    obtain X where X: "X \<subseteq> ready \<inter> (\<Union>g \<in> set guilds. promotable cfg g)"
      and eq: "snd (promote_guilds cfg iter ready guilds ?w1) =
             ?w1\<lparr>users_in_role := filter (\<lambda>r. user r \<notin> X) (users_in_role ?w1)\<rparr>"
      by blast
    from False g eq have "snd (promote_users cfg iter guilds w) =
        w\<lparr>users_in_role := filter (\<lambda>r. user r \<notin> X) (users_in_role w),
               clock := (\<lambda>n. clock w (Suc n))\<rparr>"
      by (simp add: promote_users_def)
    with X show ?thesis unfolding r by blast
  qed
qed

lemma promote_users_complete:
  assumes "set_iteration iter" and "documented_failures guilds"
  shows "promote_users cfg iter guilds w =
           (None, w\<lparr>users_in_role :=
                      filter (\<lambda>r. user r \<notin> fst (get_ready_users w) \<inter> (\<Union>g \<in> set guilds. promotable cfg g))
                        (users_in_role w),
                    clock := (\<lambda>n. clock w (Suc n))\<rparr>)"
proof -
  let ?w1 = "w\<lparr>clock := (\<lambda>n. clock w (Suc n))\<rparr>"
  obtain ready where g: "get_ready_users w = (ready, ?w1)" by (simp add: get_ready_users_eq)
  then have r: "fst (get_ready_users w) = ready" by simp
  have fin: "finite ready" using finite_ready [of w] r by simp
  show ?thesis
  proof (cases "card ready < 1")
    case True
    then have "ready = {}" using fin by (simp add: card_less_one)
    with g have "promote_users cfg iter guilds w =
        (None, w\<lparr>users_in_role := filter (\<lambda>r. user r \<notin> {}) (users_in_role w),
                  clock := (\<lambda>n. clock w (Suc n))\<rparr>)"
      by (simp add: promote_users_def)
    with \<open>ready = {}\<close> show ?thesis unfolding r by simp
  next
    case False
    from assms(1) fin have "set (iter ready) = ready" by (rule set_iterationD(1))
    from promote_guilds_complete [where iter = iter and ready_users = ready and guilds = guilds and cfg = cfg and w = ?w1, OF this assms(2)] False g
    have "promote_users cfg iter guilds w =
        (None, ?w1\<lparr>users_in_role :=
              filter (\<lambda>r. user r \<notin> ready \<inter> (\<Union>g \<in> set guilds. promotable cfg g)) (users_in_role ?w1)\<rparr>)"
      by (simp add: promote_users_def)
    then show ?thesis unfolding r by simp
  qed
qed

subsection \<open>The event listener\<close>

lemma added_loop_absent:
  "role_id_monitored cfg \<notin> set rs \<Longrightarrow> added_loop cfg w after rs = (None, w)"
  by (induction rs) auto

lemma added_loop_present:
  "distinct rs \<Longrightarrow> role_id_monitored cfg \<in> set rs \<Longrightarrow>
     added_loop cfg w after rs = add_user_to_db w (member_id after)"
proof (induction rs)
  case Nil
  then show ?case by simp
next
  case (Cons r rs)
  show ?case
  proof (cases "r = role_id_monitored cfg")
    case True
    with Cons.prems have "role_id_monitored cfg \<notin> set rs" by auto
    then have "added_loop cfg w' after rs = (None, w')" for w' by (rule added_loop_absent)
    with True show ?thesis by (auto split: prod.splits option.splits)
  next
    case False
    with Cons show ?thesis by simp
  qed
qed

lemma removed_loop_absent:
  "role_id_monitored cfg \<notin> set rs \<Longrightarrow> removed_loop cfg w after rs = w"
  by (induction rs) auto

lemma removed_loop_present:
  "role_id_monitored cfg \<in> set rs \<Longrightarrow>
     removed_loop cfg w after rs = remove_from_db w (member_id after)"
proof (induction rs arbitrary: w)
  case Nil
  then show ?case by simp
next
  case (Cons r rs)
  show ?case
  proof (cases "role_id_monitored cfg \<in> set rs")
    case True
    with Cons.IH show ?thesis by (simp add: remove_from_db_idem)
  next
    case False
    with Cons.prems have "r = role_id_monitored cfg" by simp
    with False show ?thesis by (simp add: removed_loop_absent)
  qed
qed

lemma on_member_update_eq:
  assumes "set_iteration iter"
  shows "on_member_update cfg iter w before after =
           (if role_id_monitored cfg \<in> set (roles after) - set (roles before)
            then add_user_to_db w (member_id after)
            else if role_id_monitored cfg \<in> set (roles before) - set (roles after)
            then (None, remove_from_db w (member_id after))
            else (None, w))"
proof (cases "roles before = roles after")
  case True
  then show ?thesis by (simp add: on_member_update_def)
next
  case False
  let ?added = "set (roles after) - set (roles before)"
  let ?removed = "set (roles before) - set (roles after)"
  let ?m = "role_id_monitored cfg"
  have sa: "set (iter ?added) = ?added" and da: "distinct (iter ?added)"
    using assms by (simp_all add: set_iterationD)
  have sr: "set (iter ?removed) = ?removed"
    using assms by (simp add: set_iterationD)
  have eq: "on_member_update cfg iter w before after =
      (case added_loop cfg w after (iter ?added) of
         (Some e, w') \<Rightarrow> (Some e, w')
       | (None, w') \<Rightarrow> (None, removed_loop cfg w' after (iter ?removed)))"
    using False by (simp add: on_member_update_def Let_def)
  show ?thesis
  proof (cases "?m \<in> ?added")
    case True
    then have a: "added_loop cfg w after (iter ?added) = add_user_to_db w (member_id after)"
      using da sa by (simp add: added_loop_present)
    from True have "?m \<notin> set (iter ?removed)" unfolding sr by simp
    then have "removed_loop cfg w' after (iter ?removed) = w'" for w'
      by (rule removed_loop_absent)
    with True show ?thesis unfolding eq a
      by (simp split: prod.splits option.splits)
  next
    case notadded: False
    then have a: "added_loop cfg w after (iter ?added) = (None, w)"
      using sa by (simp add: added_loop_absent)
    show ?thesis
    proof (cases "?m \<in> ?removed")
      case True
      then have "removed_loop cfg w after (iter ?removed) = remove_from_db w (member_id after)"
        using sr by (simp add: removed_loop_present)
      with notadded True show ?thesis unfolding eq a by simp
    next
      case False
      then have "removed_loop cfg w after (iter ?removed) = w"
        using sr by (simp add: removed_loop_absent)
      with notadded False show ?thesis unfolding eq a by auto
    qed
  qed
qed

subsection \<open>The unique indexes hold in every reachable state\<close>

lemma unique_indexes_init_db: "unique_indexes (users_in_role (init_db clk))"
  by (simp add: init_db_def unique_indexes_def)

lemma unique_indexes_add_missing:
  "unique_indexes (users_in_role w) \<Longrightarrow> unique_indexes (users_in_role (snd (add_missing w us)))"
proof (induction us arbitrary: w)
  case Nil
  then show ?case by simp
next
  case (Cons u us)
  obtain r w1 where a: "add_user_to_db w u = (r, w1)" by (cases "add_user_to_db w u")
  with unique_indexes_add [OF Cons.prems, of u] have u1: "unique_indexes (users_in_role w1)" by simp
  show ?case
  proof (cases r)
    case None
    with a Cons.IH [OF u1] show ?thesis by simp
  next
    case (Some e)
    with a u1 show ?thesis by simp
  qed
qed

lemma unique_indexes_update_probation_users:
  assumes "unique_indexes (users_in_role w)"
  shows "unique_indexes (users_in_role (snd (update_probation_users iter w L)))"
proof -
  have "unique_indexes (users_in_role (remove_stale w us))" for us
    using assms by (simp add: remove_stale_eq unique_indexes_filter)
  then show ?thesis
    by (simp add: update_probation_users_def unique_indexes_add_missing)
qed

lemma unique_indexes_scan_users:
  "unique_indexes (users_in_role w) \<Longrightarrow>
     unique_indexes (users_in_role (snd (scan_users cfg iter guilds w)))"
proof (induction guilds arbitrary: w)
  case Nil
  then show ?case by simp
next
  case (Cons g guilds)
  obtain r w1 where s: "scan_guild cfg iter w g = (r, w1)" by (cases "scan_guild cfg iter w g")
  have "unique_indexes (users_in_role (snd (scan_guild cfg iter w g)))"
    using Cons.prems
    by (simp add: scan_guild_def unique_indexes_update_probation_users split: sum.splits)
  with s have u1: "unique_indexes (users_in_role w1)" by simp
  show ?case
    using s u1 Cons.IH [OF u1] by (simp split: option.splits)
qed

lemma unique_indexes_promote_users:
  assumes "set_iteration iter" and "unique_indexes (users_in_role w)"
  shows "unique_indexes (users_in_role (snd (promote_users cfg iter guilds w)))"
proof -
  from promote_users_frame [OF assms(1), where w = w and guilds = guilds and cfg = cfg]
  obtain X where "snd (promote_users cfg iter guilds w) =
             w\<lparr>users_in_role := filter (\<lambda>r. user r \<notin> X) (users_in_role w),
               clock := (\<lambda>n. clock w (Suc n))\<rparr>"
    by blast
  with assms(2) show ?thesis by (simp add: unique_indexes_filter)
qed

lemma unique_indexes_on_member_update:
  assumes "set_iteration iter" and "unique_indexes (users_in_role w)"
  shows "unique_indexes (users_in_role (snd (on_member_update cfg iter w before after)))"
  using assms(2) unique_indexes_add [OF assms(2), of "member_id after"]
    unique_indexes_remove [OF assms(2), of "member_id after"]
  by (simp add: on_member_update_eq [OF assms(1)])

subsection \<open>Two facts about lists\<close>

lemma filter_unique:
  "distinct (map f xs) \<Longrightarrow> x \<in> set xs \<Longrightarrow> filter (\<lambda>y. f y = f x) xs = [x]"
proof (induction xs)
  case Nil
  then show ?case by simp
next
  case (Cons a xs)
  show ?case
  proof (cases "a = x")
    case True
    with Cons.prems have "f x \<notin> f ` set xs" by simp
    then have "\<forall>y \<in> set xs. f y \<noteq> f x" by (metis image_eqI)
    then have "filter (\<lambda>y. f y = f x) xs = []" by (simp add: filter_empty_conv)
    with True show ?thesis by simp
  next
    case False
    with Cons.prems have "x \<in> set xs" "f a \<noteq> f x" by auto
    with Cons show ?thesis by simp
  qed
qed

lemma map_user_new_rows: "map user (new_rows us clk) = us"
proof -
  have "user \<circ> (\<lambda>(u, k). \<lparr>user = u, date = clk k\<rparr>) = fst"
    by (auto simp: fun_eq_iff)
  then have "map user (new_rows us clk) = map fst (zip us [0..<length us])"
    by (simp add: new_rows_def)
  then show ?thesis by simp
qed

section \<open>The claims\<close>

subsection \<open>C1: adding a user that is already recorded\<close>

text \<open>
  C1 says that adding a user who already has a record leaves exactly one record, keeps its
  timestamp and raises no error. The insertion is a plain \<^verbatim>\<open>INSERT\<close> under the unique
  index on \<^verbatim>\<open>user\<close>, so it does raise: the counterexample below adds user 7
  twice, a second apart, and the second call ends in \<open>IntegrityError\<close>.

  C1 as amended: in a table that satisfies its unique indexes, adding a user \<open>u\<close> who
  already has the record \<open>r\<close> raises \<open>IntegrityError\<close> and leaves the table as it was, so
  \<open>r\<close>, with its timestamp, is still the one record of \<open>u\<close>.
\<close>

theorem add_user_to_db_existing_user:
  assumes "unique_indexes (users_in_role w)" and "r \<in> set (users_in_role w)" and "user r = u"
  shows "fst (add_user_to_db w u) = Some IntegrityError \<and>
         users_in_role (snd (add_user_to_db w u)) = users_in_role w \<and>
         filter (\<lambda>x. user x = u) (users_in_role (snd (add_user_to_db w u))) = [r]"
proof -
  from assms(2,3) have "u \<in> user ` set (users_in_role w)" by auto
  then have a: "add_user_to_db w u = (Some IntegrityError, w\<lparr>clock := (\<lambda>n. clock w (Suc n))\<rparr>)"
    by (simp add: add_user_to_db_cases)
  from assms(1) have "distinct (map user (users_in_role w))" by (simp add: unique_indexes_def)
  from filter_unique [OF this assms(2)] assms(3)
  have "filter (\<lambda>x. user x = u) (users_in_role w) = [r]" by simp
  with a show ?thesis by simp
qed

theorem add_user_to_db_existing_user_witness:
  "fst (add_user_to_db \<lparr>users_in_role = [\<lparr>user = 7, date = 100\<rparr>], clock = steady_clock 200,
                         role_mutations = []\<rparr> 7) = Some IntegrityError \<and>
   users_in_role (snd (add_user_to_db \<lparr>users_in_role = [\<lparr>user = 7, date = 100\<rparr>],
                         clock = steady_clock 200, role_mutations = []\<rparr> 7)) =
     [\<lparr>user = 7, date = 100\<rparr>]"
  using add_user_to_db_existing_user
    [of "\<lparr>users_in_role = [\<lparr>user = 7, date = 100\<rparr>], clock = steady_clock 200, role_mutations = []\<rparr>"
        "\<lparr>user = 7, date = 100\<rparr>" 7]
  by (simp add: unique_indexes_def)

theorem add_user_to_db_twice_raises:
  "fst (add_user_to_db
          (snd (add_user_to_db (init_db (steady_clock 100)) 7))
          7) = Some IntegrityError"
  by (simp add: init_db_def add_user_to_db_def datetime_def steady_clock_def)

subsection \<open>C2: reconciliation over several guilds\<close>

text \<open>
  C2 says that after a cycle over all guilds the ledger holds a record for a user if and
  only if the user holds the monitored role in some served guild. The table has no guild
  column and every guild's pass reconciles the whole table against that guild alone: in
  the counterexample below user 1 holds the role in the first of two guilds, the cycle
  raises nothing, and the ledger ends without user 1, whose record the pass for the second
  guild removed.

  C2 as amended: a pass for one guild keeps every record whose user holds the monitored
  role in that guild; and after a cycle over all guilds that raises nothing, the ledger
  holds a record for a user if and only if the user holds the monitored role in the last
  guild whose role could be fetched (when none could, the tracked users are unchanged).
\<close>

theorem scan_users_last_guild:
  assumes "set_iteration iter"
  shows "(scan_users cfg iter guilds w = (None, w') \<longrightarrow>
           user ` set (users_in_role w') =
             (case last_fetched cfg guilds of
                None \<Rightarrow> user ` set (users_in_role w)
              | Some role \<Rightarrow> member_id ` set (members role))) \<and>
         (r \<in> set (users_in_role w) \<and> user r \<in> monitored_members cfg g \<longrightarrow>
            r \<in> set (users_in_role (snd (scan_guild cfg iter w g))))"
proof (intro conjI impI)
  assume "scan_users cfg iter guilds w = (None, w')"
  then show "user ` set (users_in_role w') =
             (case last_fetched cfg guilds of
                None \<Rightarrow> user ` set (users_in_role w)
              | Some role \<Rightarrow> member_id ` set (members role))"
    by (rule scan_users_None [OF assms])
next
  assume a: "r \<in> set (users_in_role w) \<and> user r \<in> monitored_members cfg g"
  from scan_guild_keeps [OF assms, of cfg w g] obtain added where
    k: "users_in_role (snd (scan_guild cfg iter w g)) =
           (case fetch_role g (role_id_monitored cfg) of
              Inl e \<Rightarrow> users_in_role w
            | Inr role \<Rightarrow> filter (\<lambda>r. user r \<in> member_id ` set (members role)) (users_in_role w)) @ added"
    by blast
  show "r \<in> set (users_in_role (snd (scan_guild cfg iter w g)))"
    unfolding k using a by (auto simp: monitored_members_def split: sum.splits)
qed

theorem scan_users_last_guild_witness:
  "user ` set (users_in_role (snd (scan_users \<lparr>role_id_monitored = 10, role_id_validated = 20\<rparr> ascending
     [guild_of [\<lparr>role_id = 10, members = [\<lparr>member_id = 1, roles = [10]\<rparr>]\<rparr>],
      guild_of [\<lparr>role_id = 10, members = [\<lparr>member_id = 2, roles = [10]\<rparr>]\<rparr>]]
     \<lparr>users_in_role = [\<lparr>user = 2, date = 10\<rparr>], clock = steady_clock 100, role_mutations = []\<rparr>))) = {2} \<and>
   \<lparr>user = 2, date = 10\<rparr> \<in> set (users_in_role (snd (scan_guild
     \<lparr>role_id_monitored = 10, role_id_validated = 20\<rparr> ascending
     \<lparr>users_in_role = [\<lparr>user = 2, date = 10\<rparr>], clock = steady_clock 100, role_mutations = []\<rparr>
     (guild_of [\<lparr>role_id = 10, members = [\<lparr>member_id = 2, roles = [10]\<rparr>]\<rparr>]))))"
proof -
  let ?cfg = "\<lparr>role_id_monitored = 10, role_id_validated = 20\<rparr>"
  let ?g2 = "guild_of [\<lparr>role_id = 10, members = [\<lparr>member_id = 2, roles = [10]\<rparr>]\<rparr>]"
  let ?gs = "[guild_of [\<lparr>role_id = 10, members = [\<lparr>member_id = 1, roles = [10]\<rparr>]\<rparr>], ?g2]"
  let ?w = "\<lparr>users_in_role = [\<lparr>user = 2, date = 10\<rparr>], clock = steady_clock 100, role_mutations = []\<rparr>"
  have "fst (scan_users ?cfg ascending ?gs ?w) = None"
    by (simp add: guild_of_def scan_guild_def update_probation_users_def ascending_def
        add_user_to_db_def datetime_def steady_clock_def remove_from_db_def)
  then have "scan_users ?cfg ascending ?gs ?w = (None, snd (scan_users ?cfg ascending ?gs ?w))"
    by (metis prod.collapse)
  with scan_users_last_guild [OF set_iteration_ascending,
      of ?cfg ?gs ?w "snd (scan_users ?cfg ascending ?gs ?w)" "\<lparr>user = 2, date = 10\<rparr>" ?g2]
  show ?thesis by (simp add: guild_of_def monitored_members_def)
qed

theorem scan_users_two_guilds:
  "fst (scan_users \<lparr>role_id_monitored = 10, role_id_validated = 20\<rparr> ascending
     [guild_of [\<lparr>role_id = 10, members = [\<lparr>member_id = 1, roles = [10]\<rparr>]\<rparr>],
      guild_of [\<lparr>role_id = 10, members = [\<lparr>member_id = 2, roles = [10]\<rparr>]\<rparr>]]
     (init_db (steady_clock 100))) = None \<and>
   1 \<in> monitored_members \<lparr>role_id_monitored = 10, role_id_validated = 20\<rparr>
          (guild_of [\<lparr>role_id = 10, members = [\<lparr>member_id = 1, roles = [10]\<rparr>]\<rparr>]) \<and>
   1 \<notin> user ` set (users_in_role (snd (scan_users \<lparr>role_id_monitored = 10, role_id_validated = 20\<rparr> ascending
     [guild_of [\<lparr>role_id = 10, members = [\<lparr>member_id = 1, roles = [10]\<rparr>]\<rparr>],
      guild_of [\<lparr>role_id = 10, members = [\<lparr>member_id = 2, roles = [10]\<rparr>]\<rparr>]]
     (init_db (steady_clock 100)))))"
  by (simp add: init_db_def guild_of_def scan_guild_def update_probation_users_def ascending_def
        add_user_to_db_def datetime_def steady_clock_def remove_from_db_def monitored_members_def)

subsection \<open>C3: one reconciliation pass\<close>

text \<open>
  C3: for a live set \<open>L\<close> and a ledger that tracks \<open>T\<close>, one pass is to remove the users
  in \<open>T\<close> but not in \<open>L\<close>, add those in \<open>L\<close> but not in \<open>T\<close>, and leave the tracked
  users equal to \<open>L\<close>. The loop of \<^verbatim>\<open>update_probation_users\<close> does insert every
  missing user in turn, but each insertion is stamped by \<^verbatim>\<open>datetime()\<close>, at the
  resolution of a second, under the unique index on \<^verbatim>\<open>date\<close>. With users 1 and 2
  missing from an empty ledger and both insertions within one second, the first is
  inserted, the second raises \<open>IntegrityError\<close>, and the tracked users are not \<open>{1, 2}\<close>.
\<close>

theorem update_probation_users_same_second:
  "fst (update_probation_users ascending
          (init_db (same_second 100)) {1, 2}) =
     Some IntegrityError \<and>
   user ` set (users_in_role (snd (update_probation_users ascending
          (init_db (same_second 100)) {1, 2}))) \<noteq> {1, 2}"
  by (simp add: init_db_def update_probation_users_def ascending_def add_user_to_db_def datetime_def
      same_second_def)

subsection \<open>C4: promotion\<close>

text \<open>
  C4 says that the scheduler adds the validated role, removes the monitored role and then
  deletes the record. Both role changes are commented out in the source (a dry run): in
  the counterexample below user 42 is eligible and holds the monitored role, and the
  cycle issues neither \<open>AddRoles 42 20\<close> nor \<open>RemoveRoles 42 10\<close>.

  C4 as amended: when every failing fetch raises \<^verbatim>\<open>NotFound\<close> or \<^verbatim>\<open>HTTPException\<close>, for
  every eligible user who is a member of the monitored role of a guild whose monitored
  and validated roles are both fetched, the cycle raises nothing, issues no role change,
  and leaves the ledger without a record of that user.
\<close>

theorem promote_users_removes_record:
  assumes "set_iteration iter" and "documented_failures guilds"
    and "u \<in> fst (get_ready_users w)"
    and "g \<in> set guilds"
    and "fetch_role g (role_id_monitored cfg) = Inr role"
    and "fetch_role g (role_id_validated cfg) = Inr target_role"
    and "u \<in> member_id ` set (members role)"
  shows "fst (promote_users cfg iter guilds w) = None \<and>
         role_mutations (snd (promote_users cfg iter guilds w)) = role_mutations w \<and>
         u \<notin> user ` set (users_in_role (snd (promote_users cfg iter guilds w)))"
proof -
  from assms(5-7) have "u \<in> promotable cfg g" by (simp add: promotable_def)
  with assms(3,4) have "u \<in> fst (get_ready_users w) \<inter> (\<Union>g \<in> set guilds. promotable cfg g)"
    by blast
  then show ?thesis
    by (auto simp: promote_users_complete [OF assms(1,2)])
qed

theorem promote_users_removes_record_witness:
  "fst (promote_users \<lparr>role_id_monitored = 10, role_id_validated = 20\<rparr> ascending
          [guild_of [\<lparr>role_id = 10, members = [\<lparr>member_id = 42, roles = [10]\<rparr>]\<rparr>,
                     \<lparr>role_id = 20, members = []\<rparr>]]
          \<lparr>users_in_role = [\<lparr>user = 42, date = 0\<rparr>], clock = steady_clock 691200,
           role_mutations = []\<rparr>) = None \<and>
   role_mutations (snd (promote_users \<lparr>role_id_monitored = 10, role_id_validated = 20\<rparr> ascending
          [guild_of [\<lparr>role_id = 10, members = [\<lparr>member_id = 42, roles = [10]\<rparr>]\<rparr>,
                     \<lparr>role_id = 20, members = []\<rparr>]]
          \<lparr>users_in_role = [\<lparr>user = 42, date = 0\<rparr>], clock = steady_clock 691200,
           role_mutations = []\<rparr>)) = [] \<and>
   42 \<notin> user ` set (users_in_role (snd (promote_users \<lparr>role_id_monitored = 10, role_id_validated = 20\<rparr> ascending
          [guild_of [\<lparr>role_id = 10, members = [\<lparr>member_id = 42, roles = [10]\<rparr>]\<rparr>,
                     \<lparr>role_id = 20, members = []\<rparr>]]
          \<lparr>users_in_role = [\<lparr>user = 42, date = 0\<rparr>], clock = steady_clock 691200,
           role_mutations = []\<rparr>)))"
proof -
  let ?g = "guild_of [\<lparr>role_id = 10, members = [\<lparr>member_id = 42, roles = [10]\<rparr>]\<rparr>,
                     \<lparr>role_id = 20, members = []\<rparr>]"
  let ?w = "\<lparr>users_in_role = [\<lparr>user = 42, date = 0\<rparr>], clock = steady_clock 691200,
           role_mutations = []\<rparr>"
  let ?cfg = "\<lparr>role_id_monitored = 10, role_id_validated = 20\<rparr>"
  have d: "documented_failures [?g]"
  proof -
    have "caught e" if "find_role rs rid = Inl e" for rs rid e
      using that by (induction rs) (auto split: if_splits)
    then show ?thesis by (simp add: documented_failures_def guild_of_def)
  qed
  have r: "42 \<in> fst (get_ready_users ?w)"
    by (auto simp: get_ready_users_def datetime_def steady_clock_def)
  show ?thesis
    using promote_users_removes_record [OF set_iteration_ascending d r, of ?g ?cfg
        "\<lparr>role_id = 10, members = [\<lparr>member_id = 42, roles = [10]\<rparr>]\<rparr>"
        "\<lparr>role_id = 20, members = []\<rparr>"]
    by (simp add: guild_of_def)
qed

theorem promote_users_dry_run:
  "42 \<in> fst (get_ready_users \<lparr>users_in_role = [\<lparr>user = 42, date = 0\<rparr>],
                 clock = steady_clock 691200, role_mutations = []\<rparr>) \<and>
   42 \<in> monitored_members \<lparr>role_id_monitored = 10, role_id_validated = 20\<rparr>
          (guild_of [\<lparr>role_id = 10, members = [\<lparr>member_id = 42, roles = [10]\<rparr>]\<rparr>,
                     \<lparr>role_id = 20, members = []\<rparr>]) \<and>
   AddRoles 42 20 \<notin> set (role_mutations (snd (promote_users \<lparr>role_id_monitored = 10, role_id_validated = 20\<rparr> ascending
          [guild_of [\<lparr>role_id = 10, members = [\<lparr>member_id = 42, roles = [10]\<rparr>]\<rparr>,
                     \<lparr>role_id = 20, members = []\<rparr>]]
          \<lparr>users_in_role = [\<lparr>user = 42, date = 0\<rparr>], clock = steady_clock 691200,
           role_mutations = []\<rparr>))) \<and>
   RemoveRoles 42 10 \<notin> set (role_mutations (snd (promote_users \<lparr>role_id_monitored = 10, role_id_validated = 20\<rparr> ascending
          [guild_of [\<lparr>role_id = 10, members = [\<lparr>member_id = 42, roles = [10]\<rparr>]\<rparr>,
                     \<lparr>role_id = 20, members = []\<rparr>]]
          \<lparr>users_in_role = [\<lparr>user = 42, date = 0\<rparr>], clock = steady_clock 691200,
           role_mutations = []\<rparr>)))"
proof -
  let ?w = "\<lparr>users_in_role = [\<lparr>user = 42, date = 0\<rparr>], clock = steady_clock 691200,
           role_mutations = []\<rparr>"
  have g: "get_ready_users ?w = ({42}, ?w\<lparr>clock := (\<lambda>n. steady_clock 691200 (Suc n))\<rparr>)"
    by (auto simp: get_ready_users_def datetime_def steady_clock_def)
  show ?thesis
    by (simp add: g monitored_members_def guild_of_def promote_users_def promote_guild_def
        promote_member_def remove_from_db_def ascending_def)
qed

subsection \<open>C5: the event listener\<close>

text \<open>
  C5: on a member update where the monitored role is among the roles after and not among
  those before, the listener is to add the member to the ledger (and to remove the member
  in the reverse case, and to do nothing when the role sets are the same). It does call
  the add operation, whose insertion is stamped by \<^verbatim>\<open>datetime()\<close> under the unique
  index on \<^verbatim>\<open>date\<close>: when member 5 gains the role in the second in which the record
  of member 4 was written, the listener raises \<open>IntegrityError\<close> and member 5 has no
  record.
\<close>

theorem on_member_update_same_second:
  "role_id_monitored \<lparr>role_id_monitored = 10, role_id_validated = 20\<rparr>
     \<in> set (roles \<lparr>member_id = 5, roles = [1, 10]\<rparr>) - set (roles \<lparr>member_id = 5, roles = [1]\<rparr>) \<and>
   fst (on_member_update \<lparr>role_id_monitored = 10, role_id_validated = 20\<rparr> ascending
     \<lparr>users_in_role = [\<lparr>user = 4, date = 100\<rparr>], clock = same_second 100, role_mutations = []\<rparr>
     \<lparr>member_id = 5, roles = [1]\<rparr> \<lparr>member_id = 5, roles = [1, 10]\<rparr>) = Some IntegrityError \<and>
   5 \<notin> user ` set (users_in_role (snd (on_member_update
     \<lparr>role_id_monitored = 10, role_id_validated = 20\<rparr> ascending
     \<lparr>users_in_role = [\<lparr>user = 4, date = 100\<rparr>], clock = same_second 100, role_mutations = []\<rparr>
     \<lparr>member_id = 5, roles = [1]\<rparr> \<lparr>member_id = 5, roles = [1, 10]\<rparr>)))"
  by (simp add: on_member_update_def ascending_def add_user_to_db_def datetime_def
      same_second_def)

subsection \<open>C6: the eligibility threshold\<close>

text \<open>
  C6 says that every user with \<open>entered_at \<le> now - wait_duration\<close> is eligible. The query
  compares with \<^verbatim>\<open><\<close>: in the counterexample below user 42 entered exactly seven
  days (604800 seconds) before the query and is not returned.

  C6 as amended: the query returns exactly the users of the records whose timestamp is
  strictly older than seven days before the reading of the clock; in a table that
  satisfies its unique indexes the user of a record \<open>r\<close> is returned if and only if
  \<open>date r < now - 604800\<close>, so one with \<open>date r \<ge> now - 604800\<close> is excluded; and the
  query leaves the table as it was.
\<close>

theorem get_ready_users_threshold:
  assumes "unique_indexes (users_in_role w)" and "r \<in> set (users_in_role w)"
  shows "fst (get_ready_users w) = user ` {x \<in> set (users_in_role w). date x < clock w 0 - 604800} \<and>
         (user r \<in> fst (get_ready_users w)) = (date r < clock w 0 - 604800) \<and>
         users_in_role (snd (get_ready_users w)) = users_in_role w"
proof -
  from assms(1) have "inj_on user (set (users_in_role w))"
    by (simp add: unique_indexes_def distinct_map)
  with assms(2) have "(user r \<in> user ` {x \<in> set (users_in_role w). date x < clock w 0 - 604800}) =
      (date r < clock w 0 - 604800)"
    by (auto dest: inj_onD)
  then show ?thesis by (simp add: get_ready_users_eq)
qed

theorem get_ready_users_threshold_witness:
  "fst (get_ready_users \<lparr>users_in_role = [\<lparr>user = 42, date = 0\<rparr>, \<lparr>user = 43, date = 1\<rparr>],
          clock = same_second 604801, role_mutations = []\<rparr>) = {42}"
  using get_ready_users_threshold
    [of "\<lparr>users_in_role = [\<lparr>user = 42, date = 0\<rparr>, \<lparr>user = 43, date = 1\<rparr>],
          clock = same_second 604801, role_mutations = []\<rparr>" "\<lparr>user = 42, date = 0\<rparr>"]
  by (auto simp: unique_indexes_def same_second_def)

theorem get_ready_users_boundary:
  "date \<lparr>user = 42, date = 0\<rparr> \<le> same_second 604800 0 - 604800 \<and>
   42 \<notin> fst (get_ready_users \<lparr>users_in_role = [\<lparr>user = 42, date = 0\<rparr>],
                 clock = same_second 604800, role_mutations = []\<rparr>)"
  by (auto simp: get_ready_users_def datetime_def same_second_def)

subsection \<open>C7: the scheduler skips users without the role\<close>

text \<open>
  C7: a user who is in no fetched member list of the monitored role, eligible by timestamp
  or not, keeps exactly the records the ledger had for that user, and the cycle issues no
  role change.
\<close>

theorem promote_users_skips_absent:
  assumes "set_iteration iter" and "\<forall>g \<in> set guilds. u \<notin> monitored_members cfg g"
  shows "filter (\<lambda>r. user r = u) (users_in_role (snd (promote_users cfg iter guilds w))) =
           filter (\<lambda>r. user r = u) (users_in_role w) \<and>
         role_mutations (snd (promote_users cfg iter guilds w)) = role_mutations w"
proof -
  from promote_users_frame [OF assms(1), where w = w and guilds = guilds and cfg = cfg] obtain X where
    X: "X \<subseteq> fst (get_ready_users w) \<inter> (\<Union>g \<in> set guilds. promotable cfg g)"
    and eq: "snd (promote_users cfg iter guilds w) =
             w\<lparr>users_in_role := filter (\<lambda>r. user r \<notin> X) (users_in_role w),
               clock := (\<lambda>n. clock w (Suc n))\<rparr>"
    by blast
  have "u \<notin> X"
    using X assms(2) promotable_subset [of cfg] by blast
  then have "filter (\<lambda>r. user r = u) (filter (\<lambda>r. user r \<notin> X) (users_in_role w)) =
        filter (\<lambda>r. user r = u) (users_in_role w)"
    by (auto intro: filter_cong)
  with eq show ?thesis by simp
qed

theorem promote_users_skips_absent_witness:
  "filter (\<lambda>r. user r = 42)
     (users_in_role (snd (promote_users \<lparr>role_id_monitored = 10, role_id_validated = 20\<rparr> ascending
          [guild_of [\<lparr>role_id = 10, members = [\<lparr>member_id = 43, roles = [10]\<rparr>]\<rparr>,
                     \<lparr>role_id = 20, members = []\<rparr>]]
          \<lparr>users_in_role = [\<lparr>user = 42, date = 0\<rparr>, \<lparr>user = 43, date = 1\<rparr>],
           clock = steady_clock 691200, role_mutations = []\<rparr>))) =
     [\<lparr>user = 42, date = 0\<rparr>] \<and>
   role_mutations (snd (promote_users \<lparr>role_id_monitored = 10, role_id_validated = 20\<rparr> ascending
          [guild_of [\<lparr>role_id = 10, members = [\<lparr>member_id = 43, roles = [10]\<rparr>]\<rparr>,
                     \<lparr>role_id = 20, members = []\<rparr>]]
          \<lparr>users_in_role = [\<lparr>user = 42, date = 0\<rparr>, \<lparr>user = 43, date = 1\<rparr>],
           clock = steady_clock 691200, role_mutations = []\<rparr>)) = []"
  using promote_users_skips_absent [OF set_iteration_ascending,
      of "[guild_of [\<lparr>role_id = 10, members = [\<lparr>member_id = 43, roles = [10]\<rparr>]\<rparr>,
                     \<lparr>role_id = 20, members = []\<rparr>]]" 42
         "\<lparr>role_id_monitored = 10, role_id_validated = 20\<rparr>"
         "\<lparr>users_in_role = [\<lparr>user = 42, date = 0\<rparr>, \<lparr>user = 43, date = 1\<rparr>],
           clock = steady_clock 691200, role_mutations = []\<rparr>"]
  by (simp add: monitored_members_def guild_of_def)

subsection \<open>C8: a guild whose role cannot be fetched\<close>

text \<open>
  C8: when fetching the monitored role of a guild \<open>g\<close> raises \<^verbatim>\<open>NotFound\<close> or
  \<^verbatim>\<open>HTTPException\<close>, the pass for \<open>g\<close> leaves the state as it was; a cycle over \<open>g\<close>
  alone raises nothing; a cycle over any list of guilds that contains \<open>g\<close> does what the
  cycle over the list without it does; and the remaining guilds are processed: when the
  role of the next guild \<open>g'\<close> is fetched, the cycle goes on with the reconciliation of
  the ledger against the members of that role, from the unchanged state, and continues
  with the guilds after \<open>g'\<close> (or ends with the error of that reconciliation), so that
  a cycle over \<open>g\<close> and \<open>g'\<close> that raises nothing leaves the tracked users equal to the
  members of the role of \<open>g'\<close>.
\<close>

theorem scan_users_skips_failed_guild:
  assumes "fetch_role g (role_id_monitored cfg) = Inl e" and "caught e"
  shows "scan_guild cfg iter w g = (Some e, w) \<and>
         scan_users cfg iter [g] w = (None, w) \<and>
         scan_users cfg iter (gs1 @ g # gs2) w = scan_users cfg iter (gs1 @ gs2) w \<and>
         (fetch_role g' (role_id_monitored cfg) = Inr role' \<longrightarrow>
            scan_users cfg iter (g # g' # gs) w =
              (case update_probation_users iter w (set (map member_id (members role'))) of
                 (None, w') \<Rightarrow> scan_users cfg iter gs w'
               | (Some x, w') \<Rightarrow> (Some x, w'))) \<and>
         (set_iteration iter \<and> fetch_role g' (role_id_monitored cfg) = Inr role' \<and>
          scan_users cfg iter [g, g'] w = (None, w') \<longrightarrow>
            user ` set (users_in_role w') = member_id ` set (members role'))"
proof (intro conjI impI)
  show "scan_guild cfg iter w g = (Some e, w)"
    using assms(1) by (rule scan_guild_failed)
  then show "scan_users cfg iter [g] w = (None, w)"
    using assms(2) by simp
  show "scan_users cfg iter (gs1 @ g # gs2) w = scan_users cfg iter (gs1 @ gs2) w"
    using assms by (rule scan_users_skip)
next
  assume n: "fetch_role g' (role_id_monitored cfg) = Inr role'"
  have "scan_users cfg iter (g # g' # gs) w = scan_users cfg iter (g' # gs) w"
    using scan_users_skip [OF assms, of iter "[]" "g' # gs" w] by simp
  then show "scan_users cfg iter (g # g' # gs) w =
              (case update_probation_users iter w (set (map member_id (members role'))) of
                 (None, w') \<Rightarrow> scan_users cfg iter gs w'
               | (Some x, w') \<Rightarrow> (Some x, w'))"
    by (simp only: scan_users_next [OF n])
next
  assume a: "set_iteration iter \<and> fetch_role g' (role_id_monitored cfg) = Inr role' \<and>
          scan_users cfg iter [g, g'] w = (None, w')"
  then have "user ` set (users_in_role w') =
       (case last_fetched cfg [g, g'] of
          None \<Rightarrow> user ` set (users_in_role w)
        | Some role \<Rightarrow> member_id ` set (members role))"
    using scan_users_None [of iter cfg "[g, g']" w w'] by blast
  with a show "user ` set (users_in_role w') = member_id ` set (members role')"
    by simp
qed

theorem scan_users_skips_failed_guild_witness:
  "scan_users \<lparr>role_id_monitored = 10, role_id_validated = 20\<rparr> ascending [guild_of []]
     (init_db (steady_clock 100)) = (None, init_db (steady_clock 100)) \<and>
   scan_users \<lparr>role_id_monitored = 10, role_id_validated = 20\<rparr> ascending
     [guild_of [\<lparr>role_id = 10, members = [\<lparr>member_id = 1, roles = [10]\<rparr>]\<rparr>],
      guild_of [],
      guild_of [\<lparr>role_id = 10, members = [\<lparr>member_id = 1, roles = [10]\<rparr>, \<lparr>member_id = 2, roles = [10]\<rparr>]\<rparr>]]
     (init_db (steady_clock 100)) =
   scan_users \<lparr>role_id_monitored = 10, role_id_validated = 20\<rparr> ascending
     [guild_of [\<lparr>role_id = 10, members = [\<lparr>member_id = 1, roles = [10]\<rparr>]\<rparr>],
      guild_of [\<lparr>role_id = 10, members = [\<lparr>member_id = 1, roles = [10]\<rparr>, \<lparr>member_id = 2, roles = [10]\<rparr>]\<rparr>]]
     (init_db (steady_clock 100)) \<and>
   fst (scan_users \<lparr>role_id_monitored = 10, role_id_validated = 20\<rparr> ascending
     [guild_of [],
      guild_of [\<lparr>role_id = 10, members = [\<lparr>member_id = 1, roles = [10]\<rparr>, \<lparr>member_id = 2, roles = [10]\<rparr>]\<rparr>]]
     (init_db (steady_clock 100))) = None \<and>
   users_in_role (snd (scan_users \<lparr>role_id_monitored = 10, role_id_validated = 20\<rparr> ascending
     [guild_of [],
      guild_of [\<lparr>role_id = 10, members = [\<lparr>member_id = 1, roles = [10]\<rparr>, \<lparr>member_id = 2, roles = [10]\<rparr>]\<rparr>]]
     (init_db (steady_clock 100)))) = [\<lparr>user = 1, date = 100\<rparr>, \<lparr>user = 2, date = 101\<rparr>] \<and>
   user ` set (users_in_role (snd (scan_users \<lparr>role_id_monitored = 10, role_id_validated = 20\<rparr> ascending
     [guild_of [],
      guild_of [\<lparr>role_id = 10, members = [\<lparr>member_id = 1, roles = [10]\<rparr>, \<lparr>member_id = 2, roles = [10]\<rparr>]\<rparr>]]
     (init_db (steady_clock 100))))) = {1, 2}"
proof -
  let ?cfg = "\<lparr>role_id_monitored = 10, role_id_validated = 20\<rparr>"
  let ?w = "init_db (steady_clock 100)"
  let ?bad = "guild_of []"
  let ?g1 = "guild_of [\<lparr>role_id = 10, members = [\<lparr>member_id = 1, roles = [10]\<rparr>]\<rparr>]"
  let ?r2 = "\<lparr>role_id = 10, members = [\<lparr>member_id = 1, roles = [10]\<rparr>, \<lparr>member_id = 2, roles = [10]\<rparr>]\<rparr>"
  let ?g2 = "guild_of [?r2]"
  have f: "fetch_role ?bad (role_id_monitored ?cfg) = Inl NotFound" by (simp add: guild_of_def)
  have f2: "fetch_role ?g2 (role_id_monitored ?cfg) = Inr ?r2" by (simp add: guild_of_def)
  have u: "update_probation_users ascending ?w {1, 2} =
      (None, \<lparr>users_in_role = [\<lparr>user = 1, date = 100\<rparr>, \<lparr>user = 2, date = 101\<rparr>],
              clock = (\<lambda>n. steady_clock 100 (Suc (Suc n))), role_mutations = []\<rparr>)"
    by (simp add: init_db_def update_probation_users_def ascending_def add_user_to_db_def
        datetime_def steady_clock_def)
  note t = scan_users_skips_failed_guild [OF f, of ascending ?w "[?g1]" "[?g2]" ?g2 ?r2 "[]"
      "snd (scan_users ?cfg ascending [?bad, ?g2] ?w)"]
  have c: "caught NotFound" by simp
  from t [OF c] have 1: "scan_users ?cfg ascending [?bad] ?w = (None, ?w)"
    and 2: "scan_users ?cfg ascending ([?g1] @ ?bad # [?g2]) ?w = scan_users ?cfg ascending ([?g1] @ [?g2]) ?w"
    and 3: "scan_users ?cfg ascending [?bad, ?g2] ?w =
        (case update_probation_users ascending ?w (set (map member_id (members ?r2))) of
                 (None, w') \<Rightarrow> scan_users ?cfg ascending [] w'
               | (Some x, w') \<Rightarrow> (Some x, w'))"
    and 4: "set_iteration ascending \<and> fetch_role ?g2 (role_id_monitored ?cfg) = Inr ?r2 \<and>
          scan_users ?cfg ascending [?bad, ?g2] ?w = (None, snd (scan_users ?cfg ascending [?bad, ?g2] ?w)) \<longrightarrow>
            user ` set (users_in_role (snd (scan_users ?cfg ascending [?bad, ?g2] ?w))) = member_id ` set (members ?r2)"
    using f2 by blast+
  have s: "scan_users ?cfg ascending [?bad, ?g2] ?w =
      (None, \<lparr>users_in_role = [\<lparr>user = 1, date = 100\<rparr>, \<lparr>user = 2, date = 101\<rparr>],
              clock = (\<lambda>n. steady_clock 100 (Suc (Suc n))), role_mutations = []\<rparr>)"
    unfolding 3 by (simp add: u)
  have 5: "user ` set (users_in_role (snd (scan_users ?cfg ascending [?bad, ?g2] ?w))) = {1, 2}"
    using 4 f2 set_iteration_ascending s by simp
  show ?thesis
    using 1 2 s 5 by simp
qed

subsection \<open>C9: removing a user that is not recorded\<close>

text \<open>
  C9: removing a user who has no record changes nothing: the state after the call is the
  state before it (no record appears, none disappears), and \<open>remove_from_db\<close> has no
  error result at all.
\<close>

theorem remove_from_db_absent_noop:
  "u \<notin> user ` set (users_in_role w) \<Longrightarrow> remove_from_db w u = w"
  by (rule remove_from_db_absent)

theorem remove_from_db_absent_noop_witness:
  "remove_from_db \<lparr>users_in_role = [\<lparr>user = 7, date = 100\<rparr>], clock = steady_clock 200,
                    role_mutations = []\<rparr> 8 =
     \<lparr>users_in_role = [\<lparr>user = 7, date = 100\<rparr>], clock = steady_clock 200, role_mutations = []\<rparr>"
  using remove_from_db_absent_noop
    [of 8 "\<lparr>users_in_role = [\<lparr>user = 7, date = 100\<rparr>], clock = steady_clock 200, role_mutations = []\<rparr>"]
  by simp

subsection \<open>C10: the unique index on the timestamp\<close>

text \<open>
  C10: when some record \<open>r\<close> already carries the timestamp the insertion would write (the
  next reading of the clock, at the resolution of a second), adding any user \<open>u\<close> raises
  \<open>IntegrityError\<close> and inserts nothing, so two users cannot both be recorded with the
  same second.
\<close>

theorem add_user_to_db_same_date:
  assumes "r \<in> set (users_in_role w)" and "date r = clock w 0"
  shows "fst (add_user_to_db w u) = Some IntegrityError \<and>
         users_in_role (snd (add_user_to_db w u)) = users_in_role w"
proof -
  from assms have "clock w 0 \<in> date ` set (users_in_role w)" by force
  then show ?thesis by (simp add: add_user_to_db_cases)
qed

theorem add_user_to_db_same_date_witness:
  "fst (add_user_to_db \<lparr>users_in_role = [\<lparr>user = 7, date = 100\<rparr>], clock = same_second 100,
                         role_mutations = []\<rparr> 8) = Some IntegrityError \<and>
   users_in_role (snd (add_user_to_db \<lparr>users_in_role = [\<lparr>user = 7, date = 100\<rparr>],
                         clock = same_second 100, role_mutations = []\<rparr> 8)) =
     [\<lparr>user = 7, date = 100\<rparr>]"
  using add_user_to_db_same_date
    [of "\<lparr>user = 7, date = 100\<rparr>"
        "\<lparr>users_in_role = [\<lparr>user = 7, date = 100\<rparr>], clock = same_second 100, role_mutations = []\<rparr>" 8]
  by (simp add: same_second_def)

end
